theory Spec2Isabelle
  imports Main "HOL-Library.Monad_Syntax"
begin

section \<open>Python values used by the recogniser\<close>

text \<open>
  A Python \<open>str\<close> is a sequence of Unicode code points, so it is modelled as a list of
  naturals (the sentinel \<open>'\<epsilon>'\<close> is U+03B5 and does not fit an 8-bit character).
  The grammar bodies and the phrase are "sequences of strings": in \<open>main.py\<close> they are
  \<open>str\<close> values (\<open>'XA'\<close>, \<open>"ab"\<close>), whose items are the one-character strings, and
  \<open>cky.py\<close> also admits lists of strings. Both shapes are kept apart because
  \<open>produccio == ''\<close> tells them apart.
\<close>

type_synonym pystr = "nat list"

datatype pyseq = PStr pystr | PList "pystr list"

definition py :: "string \<Rightarrow> pystr" where
  "py s = map of_char s"

definition epsilon :: pystr where
  "epsilon = [949]"

fun len :: "pyseq \<Rightarrow> nat" where
  "len (PStr s) = length s"
| "len (PList xs) = length xs"

text \<open>Indexing raises \<open>IndexError\<close> out of range: an exception is the value \<open>None\<close>.\<close>

fun getitem :: "pyseq \<Rightarrow> nat \<Rightarrow> pystr option" where
  "getitem (PStr s) i = (if i < length s then Some [s ! i] else None)"
| "getitem (PList xs) i = (if i < length xs then Some (xs ! i) else None)"

text \<open>
  A \<open>for\<close> loop over a list whose body updates a state and may raise: the first
  exception ends the loop.
\<close>

fun for_each :: "'a list \<Rightarrow> ('a \<Rightarrow> 's \<Rightarrow> 's option) \<Rightarrow> 's \<Rightarrow> 's option" where
  "for_each [] body s = Some s"
| "for_each (x # xs) body s = do { s' \<leftarrow> body x s; for_each xs body s' }"

section \<open>The grammar object\<close>

text \<open>
  The rule dictionary keeps its insertion order (\<open>items()\<close> enumerates it), so it is an
  association list; a dictionary has no repeated key (\<open>dict_ok\<close>). The value of a key
  is only ever iterated, so it is the list of the bodies it yields.
\<close>

type_synonym gramatica = "(pystr \<times> pyseq list) list"

type_synonym cell = "pystr set"

type_synonym regles = "pystr \<times> pystr \<rightharpoonup> cell"

definition dict_ok :: "gramatica \<Rightarrow> bool" where
  "dict_ok g = distinct (map fst g)"

record Gramatica =
  gramatica :: gramatica
  regles_binaries :: regles
  simbol_arrel :: pystr

subsection \<open>Preprocessing of the binary rules\<close>

text \<open>
  The body of the two loops of \<open>_preprocessar_regles_binaries\<close> (\<open>cky.py\<close>) and of
  \<open>_preprocessar_gramatica\<close> (\<open>main.py\<close>), which are the same text.
\<close>

definition afegeix_regla :: "pystr \<Rightarrow> pyseq \<Rightarrow> regles \<Rightarrow> regles option" where
  "afegeix_regla no_terminal produccio rb =
     (if len produccio = 2 then do {
        esq \<leftarrow> getitem produccio 0;
        dre \<leftarrow> getitem produccio 1;
        let clau = (esq, dre);
        let rb' = (if rb clau = None then rb(clau \<mapsto> {}) else rb);
        s \<leftarrow> rb' clau;
        Some (rb'(clau \<mapsto> insert no_terminal s))
      } else Some rb)"

definition preprocessar_regles_binaries :: "gramatica \<Rightarrow> regles option" where
  "preprocessar_regles_binaries g =
     for_each g (\<lambda>(no_terminal, produccions).
       for_each produccions (afegeix_regla no_terminal)) Map.empty"

definition preprocessar_gramatica :: "gramatica \<Rightarrow> regles option" where
  "preprocessar_gramatica g =
     for_each g (\<lambda>(no_terminal, produccions).
       for_each produccions (afegeix_regla no_terminal)) Map.empty"

text \<open>\<open>Gramatica.__init__\<close> of \<open>cky.py\<close> and \<open>carregar_gramatica\<close> of \<open>main.py\<close>.\<close>

definition init :: "gramatica \<Rightarrow> pystr \<Rightarrow> Gramatica option" where
  "init normes_gramatica arrel = do {
     rb \<leftarrow> preprocessar_regles_binaries normes_gramatica;
     Some \<lparr>gramatica = normes_gramatica, regles_binaries = rb, simbol_arrel = arrel\<rparr>
   }"

definition carregar_gramatica :: "gramatica \<Rightarrow> pystr \<Rightarrow> Gramatica option" where
  "carregar_gramatica normes_gramatica arrel = do {
     rb \<leftarrow> preprocessar_gramatica normes_gramatica;
     Some \<lparr>gramatica = normes_gramatica, regles_binaries = rb, simbol_arrel = arrel\<rparr>
   }"

subsection \<open>The empty derivation\<close>

text \<open>\<open>cky.py\<close>: a body of length one whose item is \<open>'\<epsilon>'\<close> or \<open>''\<close>.\<close>

fun hi_ha_buida :: "pyseq list \<Rightarrow> bool option" where
  "hi_ha_buida [] = Some False"
| "hi_ha_buida (produccio # produccions) = do {
     b \<leftarrow> (if len produccio = 1
           then do { s \<leftarrow> getitem produccio 0; Some (s \<in> set [epsilon, []]) }
           else Some False);
     if b then Some True else hi_ha_buida produccions
   }"

definition comprovar_derivacio_buida :: "Gramatica \<Rightarrow> bool option" where
  "comprovar_derivacio_buida G =
     (case map_of (gramatica G) (simbol_arrel G) of
        None \<Rightarrow> Some False
      | Some produccions \<Rightarrow> hi_ha_buida produccions)"

text \<open>\<open>main.py\<close>: a body equal to the empty string (a list is never equal to a string).\<close>

fun main_hi_ha_buida :: "pyseq list \<Rightarrow> bool option" where
  "main_hi_ha_buida [] = Some False"
| "main_hi_ha_buida (produccio # produccions) =
     (if produccio = PStr [] then Some True else main_hi_ha_buida produccions)"

definition main_comprovar_derivacio_buida :: "Gramatica \<Rightarrow> bool option" where
  "main_comprovar_derivacio_buida G =
     (case map_of (gramatica G) (simbol_arrel G) of
        None \<Rightarrow> Some False
      | Some produccions \<Rightarrow> main_hi_ha_buida produccions)"

section \<open>The CKY table\<close>

text \<open>
  \<open>taula\<close> is a list of rows of sets. Every cell is a set object of its own (the nested
  comprehension builds \<open>n * n\<close> of them), \<open>taula[i][j]\<close> raises out of range, and
  \<open>add\<close> and \<open>update\<close> change the cell in place.
\<close>

type_synonym taula = "cell list list"

definition taula_buida :: "nat \<Rightarrow> taula" where
  "taula_buida n = replicate n (replicate n {})"

definition get_cell :: "taula \<Rightarrow> nat \<Rightarrow> nat \<Rightarrow> cell option" where
  "get_cell t i j = (if i < length t \<and> j < length (t ! i) then Some (t ! i ! j) else None)"

definition cell_add :: "taula \<Rightarrow> nat \<Rightarrow> nat \<Rightarrow> pystr \<Rightarrow> taula option" where
  "cell_add t i j x = do { c \<leftarrow> get_cell t i j; Some (t[i := (t ! i)[j := insert x c]]) }"

definition cell_update :: "taula \<Rightarrow> nat \<Rightarrow> nat \<Rightarrow> cell \<Rightarrow> taula option" where
  "cell_update t i j s = do { c \<leftarrow> get_cell t i j; Some (t[i := (t ! i)[j := c \<union> s]]) }"

subsection \<open>Base case: the diagonal\<close>

definition es_terminal :: "pyseq \<Rightarrow> pystr \<Rightarrow> bool option" where
  "es_terminal produccio paraula =
     (if len produccio = 1 then do { s \<leftarrow> getitem produccio 0; Some (s = paraula) }
      else Some False)"

definition cas_base_produccio :: "nat \<Rightarrow> pystr \<Rightarrow> pystr \<Rightarrow> pyseq \<Rightarrow> taula \<Rightarrow> taula option" where
  "cas_base_produccio col paraula no_terminal produccio t = do {
     b \<leftarrow> es_terminal produccio paraula;
     if b then cell_add t col col no_terminal else Some t
   }"

definition cas_base :: "gramatica \<Rightarrow> pyseq \<Rightarrow> nat \<Rightarrow> taula \<Rightarrow> taula option" where
  "cas_base g frase n t =
     for_each [0..<n] (\<lambda>col t. do {
       paraula \<leftarrow> getitem frase col;
       for_each g (\<lambda>(no_terminal, produccions).
         for_each produccions (cas_base_produccio col paraula no_terminal)) t
     }) t"

subsection \<open>Longer spans\<close>

text \<open>
  The two loops over \<open>part_diag\<close> and \<open>part_col\<close> add, for every pair that is a key of the
  index, the indexed set to \<open>taula[diag][col]\<close>: together they add the union over the
  pairs. The cell is only touched when some pair is a key. Python raises
  \<open>RuntimeError\<close> when a set changes while it is iterated, which can only happen when
  the cell iterated is the cell updated.
\<close>

definition busca :: "regles \<Rightarrow> pystr \<Rightarrow> pystr \<Rightarrow> cell" where
  "busca rb b c = (case rb (b, c) of None \<Rightarrow> {} | Some s \<Rightarrow> s)"

definition parelles :: "regles \<Rightarrow> nat \<Rightarrow> nat \<Rightarrow> nat \<Rightarrow> cell \<Rightarrow> cell \<Rightarrow> taula \<Rightarrow> taula option" where
  "parelles rb diag col k part_diag part_col t =
     (if \<exists>b\<in>part_diag. \<exists>c\<in>part_col. rb (b, c) \<noteq> None
      then (if diag + k = col \<or> diag + k + 1 = diag then None
            else cell_update t diag col (\<Union>b\<in>part_diag. \<Union>c\<in>part_col. busca rb b c))
      else Some t)"

definition divisio :: "regles \<Rightarrow> nat \<Rightarrow> nat \<Rightarrow> nat \<Rightarrow> taula \<Rightarrow> taula option" where
  "divisio rb diag col k t = do {
     part_diag \<leftarrow> get_cell t diag (diag + k);
     part_col \<leftarrow> get_cell t (diag + k + 1) col;
     if part_diag = {} \<or> part_col = {} then Some t
     else parelles rb diag col k part_diag part_col t
   }"

definition omple_resta :: "regles \<Rightarrow> nat \<Rightarrow> taula \<Rightarrow> taula option" where
  "omple_resta rb n t =
     for_each [1..<n] (\<lambda>n_fila.
       for_each [0..<n - n_fila] (\<lambda>diag.
         for_each [0..<n_fila] (divisio rb diag (diag + n_fila)))) t"

definition omple_taula :: "Gramatica \<Rightarrow> pyseq \<Rightarrow> bool option" where
  "omple_taula G frase = do {
     let n = len frase;
     t \<leftarrow> cas_base (gramatica G) frase n (taula_buida n);
     t \<leftarrow> omple_resta (regles_binaries G) n t;
     c \<leftarrow> get_cell t 0 (n - 1);
     Some (simbol_arrel G \<in> c)
   }"

text \<open>\<open>algoritme_cky\<close> of \<open>cky.py\<close> and of \<open>main.py\<close>; lines 22 to 56 of the first are
  lines 32 to 66 of the second.\<close>

definition algoritme_cky :: "Gramatica \<Rightarrow> pyseq \<Rightarrow> bool option" where
  "algoritme_cky G frase =
     (if len frase = 0 then comprovar_derivacio_buida G else omple_taula G frase)"

definition main_algoritme_cky :: "Gramatica \<Rightarrow> pyseq \<Rightarrow> bool option" where
  "main_algoritme_cky G frase =
     (if len frase = 0 then main_comprovar_derivacio_buida G else omple_taula G frase)"

text \<open>The whole call: build the object, then recognise.\<close>

definition recognize :: "gramatica \<Rightarrow> pystr \<Rightarrow> pyseq \<Rightarrow> bool option" where
  "recognize g arrel frase = do { G \<leftarrow> init g arrel; algoritme_cky G frase }"

definition main_recognize :: "gramatica \<Rightarrow> pystr \<Rightarrow> pyseq \<Rightarrow> bool option" where
  "main_recognize g arrel frase = do { G \<leftarrow> carregar_gramatica g arrel; main_algoritme_cky G frase }"

subsection \<open>The example grammars of \<open>main.py\<close>\<close>

definition create_grammar_g1 :: gramatica where
  "create_grammar_g1 =
     [(py ''S'', [PStr (py ''a''), PStr (py ''XA''), PStr (py ''AX''), PStr (py ''b'')]),
      (py ''A'', [PStr (py ''RB'')]),
      (py ''B'', [PStr (py ''AX''), PStr (py ''b''), PStr (py ''a'')]),
      (py ''X'', [PStr (py ''a'')]),
      (py ''R'', [PStr (py ''XB'')])]"

definition create_grammar_g2 :: gramatica where
  "create_grammar_g2 =
     [(py ''S'', [PStr (py ''AB''), PStr (py ''CD''), PStr (py ''CB''), PStr (py ''SS'')]),
      (py ''A'', [PStr (py ''BC''), PStr (py ''a'')]),
      (py ''B'', [PStr (py ''SC''), PStr (py ''b'')]),
      (py ''C'', [PStr (py ''DD''), PStr (py ''b'')]),
      (py ''D'', [PStr (py ''BA'')])]"


subsection \<open>The recogniser without the pruning test\<close>

text \<open>
  The same table fill with the test \<open>if not part_diag or not part_col: continue\<close> taken
  out: every split point goes on to the loops over the pairs.
\<close>

definition divisio_sense_poda :: "regles \<Rightarrow> nat \<Rightarrow> nat \<Rightarrow> nat \<Rightarrow> taula \<Rightarrow> taula option" where
  "divisio_sense_poda rb diag col k t = do {
     part_diag \<leftarrow> get_cell t diag (diag + k);
     part_col \<leftarrow> get_cell t (diag + k + 1) col;
     parelles rb diag col k part_diag part_col t
   }"

definition omple_resta_sense_poda :: "regles \<Rightarrow> nat \<Rightarrow> taula \<Rightarrow> taula option" where
  "omple_resta_sense_poda rb n t =
     for_each [1..<n] (\<lambda>n_fila.
       for_each [0..<n - n_fila] (\<lambda>diag.
         for_each [0..<n_fila] (divisio_sense_poda rb diag (diag + n_fila)))) t"

definition omple_taula_sense_poda :: "Gramatica \<Rightarrow> pyseq \<Rightarrow> bool option" where
  "omple_taula_sense_poda G frase = do {
     let n = len frase;
     t \<leftarrow> cas_base (gramatica G) frase n (taula_buida n);
     t \<leftarrow> omple_resta_sense_poda (regles_binaries G) n t;
     c \<leftarrow> get_cell t 0 (n - 1);
     Some (simbol_arrel G \<in> c)
   }"

definition algoritme_cky_sense_poda :: "Gramatica \<Rightarrow> pyseq \<Rightarrow> bool option" where
  "algoritme_cky_sense_poda G frase =
     (if len frase = 0 then comprovar_derivacio_buida G else omple_taula_sense_poda G frase)"

definition recognize_sense_poda :: "gramatica \<Rightarrow> pystr \<Rightarrow> pyseq \<Rightarrow> bool option" where
  "recognize_sense_poda g arrel frase =
     do { G \<leftarrow> init g arrel; algoritme_cky_sense_poda G frase }"

section \<open>What the table holds\<close>

text \<open>
  The items of a sequence, the shapes of a body that the code tests for, and the set of
  (non-terminal, body) pairs of a grammar.
\<close>

fun elements :: "pyseq \<Rightarrow> pystr list" where
  "elements (PStr s) = map (\<lambda>c. [c]) s"
| "elements (PList xs) = xs"

definition unitaria :: "pyseq \<Rightarrow> pystr \<Rightarrow> bool" where
  "unitaria p a = (len p = 1 \<and> getitem p 0 = Some a)"

definition binaria :: "pyseq \<Rightarrow> pystr \<Rightarrow> pystr \<Rightarrow> bool" where
  "binaria p b c = (len p = 2 \<and> getitem p 0 = Some b \<and> getitem p 1 = Some c)"

definition es_buida :: "pyseq \<Rightarrow> bool" where
  "es_buida p = (len p = 1 \<and> (getitem p 0 = Some epsilon \<or> getitem p 0 = Some []))"

definition rules :: "gramatica \<Rightarrow> (pystr \<times> pyseq) set" where
  "rules g = set (concat (map (\<lambda>(nt, ps). map (Pair nt) ps) g))"

text \<open>The spec's \<open>derives_empty\<close>: the start symbol has a production with an empty body.\<close>

definition spec_derives_empty :: "gramatica \<Rightarrow> pystr \<Rightarrow> bool" where
  "spec_derives_empty g arrel = (\<exists>(nt, ps)\<in>set g. nt = arrel \<and> (\<exists>p\<in>set ps. len p = 0))"

text \<open>The index that preprocessing builds, written from the set of rules.\<close>

definition derivers :: "(pystr \<times> pyseq) set \<Rightarrow> pystr \<Rightarrow> pystr \<Rightarrow> cell" where
  "derivers R b c = {A. \<exists>p. (A, p) \<in> R \<and> binaria p b c}"

definition idx :: "(pystr \<times> pyseq) set \<Rightarrow> regles" where
  "idx R = (\<lambda>(b, c). if derivers R b c = {} then None else Some (derivers R b c))"

text \<open>
  The content of the cell \<open>(i, i + l)\<close> once the table is full, by recursion on the span.
\<close>

definition terminals_de :: "gramatica \<Rightarrow> pystr \<Rightarrow> cell" where
  "terminals_de g a =
     {A. \<exists>ps p. (A, ps) \<in> set g \<and> p \<in> set ps \<and> len p = 1 \<and> getitem p 0 = Some a}"

definition combina :: "regles \<Rightarrow> cell \<Rightarrow> cell \<Rightarrow> cell" where
  "combina rb pd pc = (\<Union>b\<in>pd. \<Union>c\<in>pc. busca rb b c)"

fun span :: "gramatica \<Rightarrow> regles \<Rightarrow> pystr list \<Rightarrow> nat \<Rightarrow> nat \<Rightarrow> cell" where
  "span g rb w i 0 = terminals_de g (w ! i)"
| "span g rb w i (Suc l) =
     (\<Union>k\<in>{..l}. combina rb (span g rb w i k) (span g rb w (i + k + 1) (l - k)))"

text \<open>
  \<open>tab t n F\<close>: the table is \<open>n\<close> rows of \<open>n\<close> cells and cell \<open>(i, j)\<close> holds \<open>F i j\<close>.
  \<open>Finv\<close> is the content while the loops run: spans shorter than \<open>m\<close> are done, and so
  are the spans of length \<open>m\<close> that start before \<open>d\<close>.
\<close>

definition tab :: "taula \<Rightarrow> nat \<Rightarrow> (nat \<Rightarrow> nat \<Rightarrow> cell) \<Rightarrow> bool" where
  "tab t n F = (length t = n \<and> (\<forall>i<n. length (t ! i) = n \<and> (\<forall>j<n. t ! i ! j = F i j)))"

definition posa :: "(nat \<Rightarrow> nat \<Rightarrow> cell) \<Rightarrow> nat \<Rightarrow> nat \<Rightarrow> cell \<Rightarrow> nat \<Rightarrow> nat \<Rightarrow> cell" where
  "posa F i j S = (\<lambda>a b. if a = i \<and> b = j then F a b \<union> S else F a b)"

definition Finv :: "gramatica \<Rightarrow> regles \<Rightarrow> pystr list \<Rightarrow> nat \<Rightarrow> nat \<Rightarrow> nat \<Rightarrow> nat \<Rightarrow> cell" where
  "Finv g rb w m d =
     (\<lambda>i j. if i \<le> j \<and> (j - i < m \<or> (j - i = m \<and> i < d)) then span g rb w i (j - i) else {})"

section \<open>Loops and table: auxiliary facts\<close>

lemma len_elements: "len frase = length (elements frase)"
  by (cases frase) simp_all

lemma getitem_elements:
  "getitem frase i = (if i < len frase then Some (elements frase ! i) else None)"
  by (cases frase) simp_all

lemma tab_buida: "tab (taula_buida n) n (\<lambda>i j. {})"
  by (simp add: tab_def taula_buida_def)

lemma tab_get: "tab t n F \<Longrightarrow> i < n \<Longrightarrow> j < n \<Longrightarrow> get_cell t i j = Some (F i j)"
  by (simp add: tab_def get_cell_def)

lemma tab_cong: "tab t n F \<Longrightarrow> (\<And>i j. i < n \<Longrightarrow> j < n \<Longrightarrow> F i j = F' i j) \<Longrightarrow> tab t n F'"
  by (simp add: tab_def)

lemma tab_update:
  assumes "tab t n F" "i < n" "j < n"
  shows "\<exists>t'. cell_update t i j S = Some t' \<and> tab t' n (posa F i j S)"
  using assms
  by (auto simp: tab_def get_cell_def cell_update_def posa_def nth_list_update)

lemma tab_add:
  assumes "tab t n F" "i < n" "j < n"
  shows "\<exists>t'. cell_add t i j x = Some t' \<and> tab t' n (posa F i j {x})"
  using assms
  by (auto simp: tab_def get_cell_def cell_add_def posa_def nth_list_update)

lemma posa_posa: "posa (posa F i j S) i j T = posa F i j (S \<union> T)"
  by (auto simp: posa_def fun_eq_iff)

lemma posa_empty: "posa F i j {} = F"
  by (auto simp: posa_def fun_eq_iff)

lemma for_each_append:
  "for_each (xs @ ys) body s = Option.bind (for_each xs body s) (for_each ys body)"
  by (induction xs arbitrary: s) (auto split: Option.bind_split)

lemma for_each_list:
  assumes "P [] s"
    and "\<And>ys x s. P ys s \<Longrightarrow> \<exists>s'. body x s = Some s' \<and> P (ys @ [x]) s'"
  shows "\<exists>s'. for_each xs body s = Some s' \<and> P xs s'"
proof (induction xs rule: rev_induct)
  case Nil
  then show ?case using assms(1) by simp
next
  case (snoc x xs)
  then obtain s1 where s1: "for_each xs body s = Some s1" "P xs s1" by blast
  from assms(2)[OF s1(2)] obtain s2 where "body x s1 = Some s2" "P (xs @ [x]) s2" by blast
  with s1 show ?case by (simp add: for_each_append)
qed

lemma for_each_range:
  assumes "P a s" and "a \<le> b"
    and "\<And>i s. a \<le> i \<Longrightarrow> i < b \<Longrightarrow> P i s \<Longrightarrow> \<exists>s'. body i s = Some s' \<and> P (Suc i) s'"
  shows "\<exists>s'. for_each [a..<b] body s = Some s' \<and> P b s'"
  using assms(2,3)
proof (induction b)
  case 0
  then show ?case using assms(1) by simp
next
  case (Suc b)
  show ?case
  proof (cases "a = Suc b")
    case True
    then show ?thesis using assms(1) by simp
  next
    case False
    with Suc.prems have le: "a \<le> b" by simp
    have "\<exists>s'. for_each [a..<b] body s = Some s' \<and> P b s'"
      using Suc.IH[OF le] Suc.prems(2) by simp
    then obtain s1 where s1: "for_each [a..<b] body s = Some s1" "P b s1" by blast
    from Suc.prems(2)[OF le _ s1(2)] obtain s2 where "body b s1 = Some s2" "P (Suc b) s2" by auto
    with s1 le show ?thesis by (simp add: for_each_append)
  qed
qed

lemma es_terminal_eq:
  "es_terminal p a = Some (unitaria p a)"
  by (cases p) (auto simp: es_terminal_def unitaria_def)

lemma cas_base_produccio_tab:
  assumes "tab t n F" "col < n"
  shows "\<exists>t'. cas_base_produccio col a nt p t = Some t' \<and>
           tab t' n (posa F col col {A. A = nt \<and> unitaria p a})"
proof (cases "unitaria p a")
  case True
  then have "{A. A = nt \<and> unitaria p a} = {nt}" by auto
  with True tab_add[OF assms assms(2), where x = nt] show ?thesis
    by (simp add: cas_base_produccio_def es_terminal_eq)
next
  case False
  then have "{A. A = nt \<and> unitaria p a} = {}" by auto
  with False assms(1) show ?thesis
    by (simp add: cas_base_produccio_def es_terminal_eq posa_empty)
qed

lemma cas_base_produccions_tab:
  assumes "tab t n F" "col < n"
  shows "\<exists>t'. for_each ps (cas_base_produccio col a nt) t = Some t' \<and>
           tab t' n (posa F col col
             {A. A = nt \<and> (\<exists>p\<in>set ps. unitaria p a)})"
proof (rule for_each_list)
  show "tab t n (posa F col col
          {A. A = nt \<and> (\<exists>p\<in>set []. unitaria p a)})"
    using assms(1) by (simp add: posa_empty)
next
  fix ys x s
  assume "tab s n (posa F col col
            {A. A = nt \<and> (\<exists>p\<in>set ys. unitaria p a)})"
  from cas_base_produccio_tab[OF this assms(2), where a = a and nt = nt and p = x]
  obtain s' where s': "cas_base_produccio col a nt x s = Some s'"
    "tab s' n (posa F col col
       ({A. A = nt \<and> (\<exists>p\<in>set ys. unitaria p a)} \<union>
        {A. A = nt \<and> unitaria x a}))"
    by (auto simp: posa_posa)
  have "{A. A = nt \<and> (\<exists>p\<in>set ys. unitaria p a)} \<union>
        {A. A = nt \<and> unitaria x a} =
        {A. A = nt \<and> (\<exists>p\<in>set (ys @ [x]). unitaria p a)}"
    by auto
  with s' show "\<exists>s'. cas_base_produccio col a nt x s = Some s' \<and>
      tab s' n (posa F col col
        {A. A = nt \<and> (\<exists>p\<in>set (ys @ [x]). unitaria p a)})"
    by simp
qed

lemma terminals_de_Nil: "terminals_de [] a = {}"
  by (simp add: terminals_de_def)

lemma terminals_de_snoc:
  "terminals_de (g @ [(nt, ps)]) a =
     terminals_de g a \<union> {A. A = nt \<and> (\<exists>p\<in>set ps. unitaria p a)}"
  by (auto simp: terminals_de_def unitaria_def)

lemma cas_base_items_tab:
  assumes "tab t n F" "col < n"
  shows "\<exists>t'. for_each g (\<lambda>(nt, ps). for_each ps (cas_base_produccio col a nt)) t = Some t' \<and>
           tab t' n (posa F col col (terminals_de g a))"
proof (rule for_each_list)
  show "tab t n (posa F col col (terminals_de [] a))"
    using assms(1) by (simp add: posa_empty terminals_de_Nil)
next
  fix ys and x :: "pystr \<times> pyseq list" and s
  assume inv: "tab s n (posa F col col (terminals_de ys a))"
  obtain nt ps where x: "x = (nt, ps)" by (cases x)
  from cas_base_produccions_tab[OF inv assms(2), where ps = ps and a = a and nt = nt]
  show "\<exists>s'. (case x of (nt, ps) \<Rightarrow> for_each ps (cas_base_produccio col a nt)) s = Some s' \<and>
      tab s' n (posa F col col (terminals_de (ys @ [x]) a))"
    by (simp add: x posa_posa terminals_de_snoc)
qed

lemma cas_base_tab:
  assumes "n = len frase"
  shows "\<exists>t'. cas_base g frase n (taula_buida n) = Some t' \<and>
           tab t' n (Finv g rb (elements frase) 1 0)"
proof -
  let ?w = "elements frase"
  let ?P = "\<lambda>c t. tab t n (\<lambda>i j. if i = j \<and> i < c then terminals_de g (?w ! i) else {})"
  have "\<exists>t'. for_each [0..<n] (\<lambda>col t. do {
       paraula \<leftarrow> getitem frase col;
       for_each g (\<lambda>(no_terminal, produccions).
         for_each produccions (cas_base_produccio col paraula no_terminal)) t
     }) (taula_buida n) = Some t' \<and> ?P n t'"
  proof (rule for_each_range[where P = ?P])
    show "?P 0 (taula_buida n)" using tab_buida by simp
  next
    show "0 \<le> n" by simp
  next
    fix i s
    assume i: "i < n" and inv: "?P i s"
    have gi: "getitem frase i = Some (?w ! i)"
      using i assms by (simp add: getitem_elements)
    from cas_base_items_tab[OF inv i, where g = g and a = "?w ! i"]
    obtain s' where s': "for_each g (\<lambda>(nt, ps). for_each ps (cas_base_produccio i (?w ! i) nt)) s = Some s'"
      "tab s' n (posa (\<lambda>i' j. if i' = j \<and> i' < i then terminals_de g (?w ! i') else {}) i i
           (terminals_de g (?w ! i)))" by blast
    have "?P (Suc i) s'"
      by (rule tab_cong[OF s'(2)]) (auto simp: posa_def)
    with s'(1) gi show "\<exists>s'. do {
       paraula \<leftarrow> getitem frase i;
       for_each g (\<lambda>(no_terminal, produccions).
         for_each produccions (cas_base_produccio i paraula no_terminal)) s
     } = Some s' \<and> ?P (Suc i) s'" by simp
  qed
  then obtain t' where t': "cas_base g frase n (taula_buida n) = Some t'" "?P n t'"
    by (auto simp: cas_base_def)
  have "tab t' n (Finv g rb ?w 1 0)"
    by (rule tab_cong[OF t'(2)]) (auto simp: Finv_def)
  with t'(1) show ?thesis by blast
qed

lemma combina_empty: "combina rb {} pc = {}" "combina rb pd {} = {}"
  by (simp_all add: combina_def)

lemma combina_no_key:
  "\<not> (\<exists>b\<in>pd. \<exists>c\<in>pc. rb (b, c) \<noteq> None) \<Longrightarrow> combina rb pd pc = {}"
  by (auto simp: combina_def busca_def)

lemma divisio_tab:
  assumes inv: "tab t n (posa (Finv g rb w m d) d (d + m) S)"
    and k: "k < m" and dm: "d + m < n"
  shows "\<exists>t'. divisio rb d (d + m) k t = Some t' \<and>
           tab t' n (posa (Finv g rb w m d) d (d + m)
             (S \<union> combina rb (span g rb w d k) (span g rb w (d + k + 1) (m - k - 1))))"
proof -
  let ?pd = "span g rb w d k" and ?pc = "span g rb w (d + k + 1) (m - k - 1)"
  have "get_cell t d (d + k) = Some (posa (Finv g rb w m d) d (d + m) S d (d + k))"
    using k dm by (intro tab_get[OF inv]) simp_all
  then have g1: "get_cell t d (d + k) = Some ?pd"
    using k by (simp add: posa_def Finv_def)
  have "get_cell t (d + k + 1) (d + m) =
          Some (posa (Finv g rb w m d) d (d + m) S (d + k + 1) (d + m))"
    using k dm by (intro tab_get[OF inv]) simp_all
  moreover have "d + m - Suc (d + k) = m - k - 1" by simp
  ultimately have g2: "get_cell t (d + k + 1) (d + m) = Some ?pc"
    using k by (simp add: posa_def Finv_def)
  show ?thesis
  proof (cases "?pd = {} \<or> ?pc = {}")
    case True
    then have "combina rb ?pd ?pc = {}" by (auto simp: combina_empty)
    with True inv g1 g2 show ?thesis by (simp add: divisio_def)
  next
    case False
    show ?thesis
    proof (cases "\<exists>b\<in>?pd. \<exists>c\<in>?pc. rb (b, c) \<noteq> None")
      case True
      have dm': "d < n" using dm by simp
      from tab_update[OF inv dm' dm, where S = "combina rb ?pd ?pc"]
      obtain t' where "cell_update t d (d + m) (combina rb ?pd ?pc) = Some t'"
        "tab t' n (posa (Finv g rb w m d) d (d + m) (S \<union> combina rb ?pd ?pc))"
        by (auto simp: posa_posa)
      with True False g1 g2 k show ?thesis
        by (simp add: divisio_def parelles_def combina_def)
    next
      case nokey: False
      then have "combina rb ?pd ?pc = {}" by (rule combina_no_key)
      with nokey False inv g1 g2 show ?thesis
        by (simp add: divisio_def parelles_def)
    qed
  qed
qed

lemma span_Suc_lessThan:
  "0 < m \<Longrightarrow> span g rb w d m =
     (\<Union>k\<in>{..<m}. combina rb (span g rb w d k) (span g rb w (d + k + 1) (m - k - 1)))"
  by (cases m) (simp_all add: lessThan_Suc_atMost)

lemma divisions_tab:
  assumes inv: "tab t n (Finv g rb w m d)" and m: "0 < m" and dm: "d + m < n"
  shows "\<exists>t'. for_each [0..<m] (divisio rb d (d + m)) t = Some t' \<and>
           tab t' n (Finv g rb w m (Suc d))"
proof -
  let ?c = "\<lambda>k. combina rb (span g rb w d k) (span g rb w (d + k + 1) (m - k - 1))"
  let ?P = "\<lambda>kk t. tab t n (posa (Finv g rb w m d) d (d + m) (\<Union>k\<in>{..<kk}. ?c k))"
  have "\<exists>t'. for_each [0..<m] (divisio rb d (d + m)) t = Some t' \<and> ?P m t'"
  proof (rule for_each_range[where P = ?P])
    show "?P 0 t" using inv by (simp add: posa_empty)
  next
    show "0 \<le> m" by simp
  next
    fix i s
    assume i: "i < m" and P: "?P i s"
    from divisio_tab[OF P i dm]
    show "\<exists>s'. divisio rb d (d + m) i s = Some s' \<and> ?P (Suc i) s'"
      by (simp add: lessThan_Suc Un_commute)
  qed
  then obtain t' where t': "for_each [0..<m] (divisio rb d (d + m)) t = Some t'" "?P m t'"
    by blast
  have "tab t' n (Finv g rb w m (Suc d))"
  proof (rule tab_cong[OF t'(2)])
    fix i j
    show "posa (Finv g rb w m d) d (d + m) (\<Union>k\<in>{..<m}. ?c k) i j = Finv g rb w m (Suc d) i j"
      using span_Suc_lessThan[OF m, of g rb w d]
      by (auto simp: posa_def Finv_def)
  qed
  with t'(1) show ?thesis by blast
qed

lemma diagonals_tab:
  assumes inv: "tab t n (Finv g rb w m 0)" and m: "0 < m" and mn: "m < n"
  shows "\<exists>t'. for_each [0..<n - m] (\<lambda>diag. for_each [0..<m] (divisio rb diag (diag + m))) t
             = Some t' \<and> tab t' n (Finv g rb w (Suc m) 0)"
proof -
  let ?P = "\<lambda>d t. tab t n (Finv g rb w m d)"
  have "\<exists>t'. for_each [0..<n - m] (\<lambda>diag. for_each [0..<m] (divisio rb diag (diag + m))) t
             = Some t' \<and> ?P (n - m) t'"
  proof (rule for_each_range[where P = ?P])
    show "?P 0 t" by (rule inv)
  next
    show "0 \<le> n - m" by simp
  next
    fix i s
    assume i: "i < n - m" and P: "?P i s"
    then have "i + m < n" by simp
    from divisions_tab[OF P m this]
    show "\<exists>s'. for_each [0..<m] (divisio rb i (i + m)) s = Some s' \<and> ?P (Suc i) s'" .
  qed
  then obtain t' where t': "for_each [0..<n - m]
      (\<lambda>diag. for_each [0..<m] (divisio rb diag (diag + m))) t = Some t'" "?P (n - m) t'"
    by blast
  have "tab t' n (Finv g rb w (Suc m) 0)"
  proof (rule tab_cong[OF t'(2)])
    fix i j :: nat
    assume "i < n" "j < n"
    then show "Finv g rb w m (n - m) i j = Finv g rb w (Suc m) 0 i j"
      by (auto simp: Finv_def)
  qed
  with t'(1) show ?thesis by blast
qed

lemma omple_resta_tab:
  assumes inv: "tab t n (Finv g rb w 1 0)" and n: "0 < n"
  shows "\<exists>t'. omple_resta rb n t = Some t' \<and> tab t' n (Finv g rb w n 0)"
  unfolding omple_resta_def
proof (rule for_each_range[where P = "\<lambda>m t. tab t n (Finv g rb w m 0)"])
  show "tab t n (Finv g rb w 1 0)" by (rule inv)
next
  show "1 \<le> n" using n by simp
next
  fix i s
  assume "1 \<le> i" "i < n" "tab s n (Finv g rb w i 0)"
  then show "\<exists>s'. for_each [0..<n - i] (\<lambda>diag. for_each [0..<i] (divisio rb diag (diag + i))) s
               = Some s' \<and> tab s' n (Finv g rb w (Suc i) 0)"
    by (intro diagonals_tab) simp_all
qed

lemma omple_taula_eq:
  assumes "len frase \<noteq> 0"
  shows "omple_taula G frase =
           Some (simbol_arrel G \<in>
             span (gramatica G) (regles_binaries G) (elements frase) 0 (len frase - 1))"
proof -
  let ?n = "len frase" and ?g = "gramatica G" and ?rb = "regles_binaries G"
  let ?w = "elements frase"
  have n: "0 < ?n" using assms by simp
  from cas_base_tab[OF refl, of ?g frase ?rb]
  obtain t1 where t1: "cas_base ?g frase ?n (taula_buida ?n) = Some t1"
    "tab t1 ?n (Finv ?g ?rb ?w 1 0)" by blast
  from omple_resta_tab[OF t1(2) n]
  obtain t2 where t2: "omple_resta ?rb ?n t1 = Some t2" "tab t2 ?n (Finv ?g ?rb ?w ?n 0)"
    by blast
  have "get_cell t2 0 (?n - 1) = Some (Finv ?g ?rb ?w ?n 0 0 (?n - 1))"
    using n by (intro tab_get[OF t2(2)]) simp_all
  then have "get_cell t2 0 (?n - 1) = Some (span ?g ?rb ?w 0 (?n - 1))"
    using n by (simp add: Finv_def)
  with t1(1) t2(1) show ?thesis
    by (simp add: omple_taula_def Let_def)
qed

lemma rules_iff: "(A, p) \<in> rules g \<longleftrightarrow> (\<exists>ps. (A, ps) \<in> set g \<and> p \<in> set ps)"
  by (auto simp: rules_def)

lemma len2_items: "len p = 2 \<Longrightarrow> \<exists>b c. getitem p 0 = Some b \<and> getitem p 1 = Some c"
  by (cases p) auto

lemma derivers_insert:
  "derivers (insert (nt, p) R) b c = (if binaria p b c then insert nt (derivers R b c) else derivers R b c)"
  by (auto simp: derivers_def)

lemma afegeix_regla_idx:
  "afegeix_regla nt p (idx R) = Some (idx (insert (nt, p) R))"
proof (cases "len p = 2")
  case False
  then have eq: "derivers (insert (nt, p) R) = derivers R"
    by (intro ext) (simp add: derivers_insert binaria_def)
  have "idx (insert (nt, p) R) = idx R"
    unfolding idx_def eq by (rule refl)
  with False show ?thesis by (simp add: afegeix_regla_def)
next
  case True
  then obtain e d where ed: "getitem p 0 = Some e" "getitem p 1 = Some d"
    using len2_items by blast
  have bin: "\<And>b c. binaria p b c \<longleftrightarrow> b = e \<and> c = d"
    using True ed by (auto simp: binaria_def)
  have "idx (insert (nt, p) R) = (\<lambda>k. if k = (e, d) then Some (insert nt (derivers R e d)) else idx R k)"
    by (auto simp: idx_def derivers_insert bin fun_eq_iff)
  moreover have "afegeix_regla nt p (idx R) =
     Some (\<lambda>k. if k = (e, d) then Some (insert nt (derivers R e d)) else idx R k)"
    using True ed by (auto simp: afegeix_regla_def Let_def idx_def fun_eq_iff)
  ultimately show ?thesis by simp
qed

lemma afegeix_produccions_idx:
  "for_each ps (afegeix_regla nt) (idx R) = Some (idx (R \<union> {nt} \<times> set ps))"
proof (induction ps arbitrary: R)
  case Nil
  then show ?case by simp
next
  case (Cons p ps)
  have "insert (nt, p) R \<union> {nt} \<times> set ps = R \<union> {nt} \<times> set (p # ps)" by auto
  with Cons[of "insert (nt, p) R"] show ?case by (simp add: afegeix_regla_idx)
qed

lemma rules_Nil: "rules [] = {}"
  by (simp add: rules_def)

lemma rules_Cons: "rules ((nt, ps) # g) = {nt} \<times> set ps \<union> rules g"
  by (auto simp: rules_def)

lemma afegeix_items_idx:
  "for_each g (\<lambda>(nt, ps). for_each ps (afegeix_regla nt)) (idx R) = Some (idx (R \<union> rules g))"
proof (induction g arbitrary: R)
  case Nil
  then show ?case by (simp add: rules_Nil)
next
  case (Cons x g)
  obtain nt ps where x: "x = (nt, ps)" by (cases x)
  have "R \<union> {nt} \<times> set ps \<union> rules g = R \<union> rules ((nt, ps) # g)"
    by (auto simp: rules_Cons)
  with Cons[of "R \<union> {nt} \<times> set ps"] show ?case
    by (simp add: x afegeix_produccions_idx)
qed

lemma idx_empty: "idx {} = Map.empty"
  by (simp add: idx_def derivers_def fun_eq_iff)

lemma preprocessar_regles_binaries_eq:
  "preprocessar_regles_binaries g = Some (idx (rules g))"
  using afegeix_items_idx[of g "{}"]
  by (simp add: preprocessar_regles_binaries_def idx_empty)

lemma preprocessar_gramatica_eq:
  "preprocessar_gramatica g = Some (idx (rules g))"
  using afegeix_items_idx[of g "{}"]
  by (simp add: preprocessar_gramatica_def idx_empty)

lemma busca_idx: "busca (idx R) b c = derivers R b c"
  by (simp add: busca_def idx_def)

lemma terminals_de_rules: "terminals_de g a = {A. \<exists>p. (A, p) \<in> rules g \<and> unitaria p a}"
  by (auto simp: terminals_de_def rules_iff unitaria_def)

lemma hi_ha_buida_eq: "hi_ha_buida ps = Some (\<exists>p\<in>set ps. es_buida p)"
proof (induction ps)
  case Nil
  then show ?case by simp
next
  case (Cons p ps)
  have "len p = 1 \<Longrightarrow> \<exists>s. getitem p 0 = Some s" by (cases p) auto
  with Cons show ?case by (auto simp: es_buida_def)
qed

lemma main_hi_ha_buida_eq: "main_hi_ha_buida ps = Some (PStr [] \<in> set ps)"
  by (induction ps) auto

lemma init_eq:
  "init g s = Some \<lparr>gramatica = g, regles_binaries = idx (rules g), simbol_arrel = s\<rparr>"
  by (simp add: init_def preprocessar_regles_binaries_eq)

lemma carregar_gramatica_eq:
  "carregar_gramatica g s =
     Some \<lparr>gramatica = g, regles_binaries = idx (rules g), simbol_arrel = s\<rparr>"
  by (simp add: carregar_gramatica_def preprocessar_gramatica_eq)

lemma recognize_buida:
  "len frase = 0 \<Longrightarrow> recognize g s frase =
     Some (case map_of g s of None \<Rightarrow> False | Some ps \<Rightarrow> \<exists>p\<in>set ps. es_buida p)"
  by (simp add: recognize_def init_eq algoritme_cky_def comprovar_derivacio_buida_def
      hi_ha_buida_eq split: option.splits)

lemma main_recognize_buida:
  "len frase = 0 \<Longrightarrow> main_recognize g s frase =
     Some (case map_of g s of None \<Rightarrow> False | Some ps \<Rightarrow> PStr [] \<in> set ps)"
  by (simp add: main_recognize_def carregar_gramatica_eq main_algoritme_cky_def
      main_comprovar_derivacio_buida_def main_hi_ha_buida_eq split: option.splits)

lemma recognize_span:
  "len frase \<noteq> 0 \<Longrightarrow> recognize g s frase =
     Some (s \<in> span g (idx (rules g)) (elements frase) 0 (len frase - 1))"
  by (simp add: recognize_def init_eq algoritme_cky_def omple_taula_eq)

lemma main_recognize_span:
  "len frase \<noteq> 0 \<Longrightarrow> main_recognize g s frase =
     Some (s \<in> span g (idx (rules g)) (elements frase) 0 (len frase - 1))"
  by (simp add: main_recognize_def carregar_gramatica_eq main_algoritme_cky_def omple_taula_eq)

lemma parelles_empty:
  "pd = {} \<or> pc = {} \<Longrightarrow> parelles rb diag col k pd pc t = Some t"
  by (auto simp: parelles_def)

lemma divisio_sense_poda_eq: "divisio_sense_poda rb diag col k t = divisio rb diag col k t"
  by (auto simp: divisio_sense_poda_def divisio_def parelles_empty
      intro!: Option.bind_cong)

lemma span_cong_terminals:
  assumes "\<And>a. terminals_de g a = terminals_de g' a"
  shows "span g rb w i l = span g' rb w i l"
proof (induction l arbitrary: i rule: less_induct)
  case (less l)
  show ?case
  proof (cases l)
    case 0
    then show ?thesis by (simp add: assms)
  next
    case (Suc m)
    have "\<And>k. k \<le> m \<Longrightarrow>
      combina rb (span g rb w i k) (span g rb w (i + k + 1) (m - k)) =
      combina rb (span g' rb w i k) (span g' rb w (i + k + 1) (m - k))"
      using less Suc by simp
    then show ?thesis by (simp add: Suc)
  qed
qed

lemma span_rules:
  assumes "rules g = rules g'"
  shows "span g (idx (rules g)) w i l = span g' (idx (rules g')) w i l"
  using span_cong_terminals[of g g' "idx (rules g')" w i l] assms
  by (simp add: terminals_de_rules)

lemma span_keys: "span g (idx (rules g)) w i l \<subseteq> fst ` set g"
proof (cases l)
  case 0
  then show ?thesis by (force simp: terminals_de_def)
next
  case (Suc m)
  have "\<And>pd pc. combina (idx (rules g)) pd pc \<subseteq> fst ` set g"
    by (force simp: combina_def busca_idx derivers_def rules_iff)
  then show ?thesis by (auto simp: Suc)
qed

lemma buida_rules:
  assumes "dict_ok g"
  shows "(case map_of g s of None \<Rightarrow> False | Some ps \<Rightarrow> \<exists>p\<in>set ps. P p) =
         (\<exists>p. (s, p) \<in> rules g \<and> P p)"
proof (cases "map_of g s")
  case None
  then have "s \<notin> fst ` set g" by (simp add: map_of_eq_None_iff)
  then have "\<And>p. (s, p) \<notin> rules g" by (force simp: rules_iff)
  with None show ?thesis by simp
next
  case (Some ps)
  have "\<And>ps'. (s, ps') \<in> set g \<longleftrightarrow> map_of g s = Some ps'"
    using assms by (simp add: dict_ok_def)
  then have "\<And>ps'. (s, ps') \<in> set g \<longleftrightarrow> ps' = ps"
    using Some by auto
  with Some show ?thesis by (auto simp: rules_iff)
qed

section \<open>Facts shared by the properties\<close>

lemma ex_rules:
  "(\<exists>(nt, ps)\<in>set g. nt = s \<and> (\<exists>p\<in>set ps. P p)) = (\<exists>p. (s, p) \<in> rules g \<and> P p)"
  by (auto simp: rules_iff)

lemma recognize_buida_dict:
  assumes "dict_ok g" and "len frase = 0"
  shows "recognize g arrel frase =
           Some (\<exists>(nt, ps)\<in>set g. nt = arrel \<and> (\<exists>p\<in>set ps. es_buida p))"
  using assms(2) buida_rules[OF assms(1), where s = arrel and P = es_buida]
  by (simp add: recognize_buida ex_rules)

lemma main_recognize_buida_dict:
  assumes "dict_ok g" and "len frase = 0"
  shows "main_recognize g arrel frase =
           Some (\<exists>(nt, ps)\<in>set g. nt = arrel \<and> PStr [] \<in> set ps)"
proof -
  have "(case map_of g arrel of None \<Rightarrow> False | Some ps \<Rightarrow> PStr [] \<in> set ps) =
        (case map_of g arrel of None \<Rightarrow> False | Some ps \<Rightarrow> \<exists>p\<in>set ps. p = PStr [])"
    by (simp split: option.splits)
  also have "\<dots> = (\<exists>p. (arrel, p) \<in> rules g \<and> p = PStr [])"
    by (rule buida_rules[OF assms(1)])
  also have "\<dots> = (\<exists>(nt, ps)\<in>set g. nt = arrel \<and> PStr [] \<in> set ps)"
    by (auto simp: rules_iff)
  finally show ?thesis using assms(2) by (simp add: main_recognize_buida)
qed

lemma recognize_un_token:
  assumes "elements frase = [t]"
  shows "recognize g arrel frase =
           Some (\<exists>(nt, ps)\<in>set g. nt = arrel \<and> (\<exists>p\<in>set ps. unitaria p t))"
proof -
  have n: "len frase = 1" using assms by (simp add: len_elements)
  then have "recognize g arrel frase = Some (arrel \<in> terminals_de g t)"
    using assms by (simp add: recognize_span)
  then show ?thesis by (simp add: terminals_de_rules ex_rules)
qed

lemma recognize_defined: "\<exists>b. recognize g arrel frase = Some b"
  by (cases "len frase = 0") (simp_all add: recognize_buida recognize_span)

lemma map_of_mid:
  "(case map_of (g1 @ (A, X) # g2) s of None \<Rightarrow> False | Some ps \<Rightarrow> Q ps) =
   (case map_of g1 s of
      Some ps \<Rightarrow> Q ps
    | None \<Rightarrow> if s = A then Q X else (case map_of g2 s of None \<Rightarrow> False | Some ps \<Rightarrow> Q ps))"
  by (auto simp: map_add_def split: option.splits)

lemma rules_append: "rules (g1 @ g2) = rules g1 \<union> rules g2"
  by (simp add: rules_def)

section \<open>The properties\<close>

text \<open>
  C1. As stated (on the empty phrase the answer is true exactly when the start symbol has
  a production with an empty body) the property fails for \<open>cky.py\<close>: with the rules
  \<open>{'S': ['']}\<close> the start symbol has the empty body \<open>''\<close> and the answer is false,
  because the test is \<open>len(produccio) == 1 and produccio[0] in ['\<epsilon>', '']\<close>.
\<close>

theorem empty_body_counterexample:
  "recognize [(py ''S'', [PStr []])] (py ''S'') (PList []) = Some False \<and>
   spec_derives_empty [(py ''S'', [PStr []])] (py ''S'')"
  by (simp add: recognize_buida spec_derives_empty_def es_buida_def)

text \<open>
  C1, amended. On the empty phrase \<open>cky.py\<close> answers true exactly when the start symbol
  is a key of the rules and one of its bodies has length one with the single item
  \<open>'\<epsilon>'\<close> or \<open>''\<close>; \<open>main.py\<close> answers true exactly when the start symbol is a key and
  one of its bodies is the empty string \<open>''\<close>. No other rule matters.
\<close>

theorem empty_input_sentinel:
  assumes "dict_ok g" and "len frase = 0"
  shows "recognize g arrel frase =
           Some (\<exists>(nt, ps)\<in>set g. nt = arrel \<and> (\<exists>p\<in>set ps. es_buida p)) \<and>
         main_recognize g arrel frase =
           Some (\<exists>(nt, ps)\<in>set g. nt = arrel \<and> PStr [] \<in> set ps)"
  using assms by (simp add: recognize_buida_dict main_recognize_buida_dict)

theorem empty_input_sentinel_witness:
  "dict_ok [(py ''S'', [PList [epsilon]])] \<and> len (PList []) = 0 \<and>
   recognize [(py ''S'', [PList [epsilon]])] (py ''S'') (PList []) = Some True \<and>
   main_recognize [(py ''S'', [PList [epsilon]])] (py ''S'') (PList []) = Some False"
proof -
  let ?g = "[(py ''S'', [PList [epsilon]])]"
  have h1: "dict_ok ?g" by (simp add: dict_ok_def)
  have h2: "len (PList []) = 0" by simp
  have e1: "\<exists>(nt, ps)\<in>set ?g. nt = py ''S'' \<and> (\<exists>p\<in>set ps. es_buida p)"
    by (simp add: es_buida_def)
  have e2: "\<not> (\<exists>(nt, ps)\<in>set ?g. nt = py ''S'' \<and> PStr [] \<in> set ps)"
    by simp
  from empty_input_sentinel[OF h1 h2, of "py ''S''"] e1 e2 h1 h2 show ?thesis
    by simp
qed

text \<open>
  C2. For the same rules and start symbol and every non-empty phrase, \<open>algoritme_cky\<close> of
  \<open>main.py\<close> (after \<open>carregar_gramatica\<close>) and \<open>algoritme_cky\<close> of \<open>cky.py\<close> return the
  same boolean; the two differ only in the test made for the empty phrase.
\<close>

theorem implementations_agree:
  "len frase \<noteq> 0 \<Longrightarrow> main_recognize g arrel frase = recognize g arrel frase"
  by (simp add: recognize_span main_recognize_span)

theorem implementations_agree_witness:
  "len (PStr (py ''ab'')) \<noteq> 0 \<and>
   main_recognize create_grammar_g2 (py ''S'') (PStr (py ''ab'')) = Some True \<and>
   recognize create_grammar_g2 (py ''S'') (PStr (py ''ab'')) = Some True"
proof -
  have h: "len (PStr (py ''ab'')) \<noteq> 0" by (simp add: py_def)
  have r: "recognize create_grammar_g2 (py ''S'') (PStr (py ''ab'')) = Some True"
    by code_simp
  from implementations_agree[OF h, of create_grammar_g2 "py ''S''"] r h show ?thesis
    by simp
qed

text \<open>
  C3. For every rule dictionary, start symbol and phrase, building the object and
  running \<open>algoritme_cky\<close> returns a boolean: no index is out of range (the last read
  \<open>taula[0][n-1]\<close> included), no key is missing and no set is changed while iterated.
\<close>

theorem recognize_total: "\<exists>b. recognize g arrel frase = Some b"
  by (rule recognize_defined)

theorem recognize_total_witness:
  "\<exists>b. recognize create_grammar_g1 (py ''S'') (PStr (py ''aba'')) = Some b"
  by (rule recognize_total)

text \<open>
  C4. On a phrase of one token \<open>t\<close> the answer is true exactly when the start symbol
  itself has a body of length one whose item is \<open>t\<close>; binary bodies and the bodies of
  other non-terminals play no part.
\<close>

theorem single_token:
  assumes "elements frase = [t]"
  shows "recognize g arrel frase =
           Some (\<exists>(nt, ps)\<in>set g. nt = arrel \<and> (\<exists>p\<in>set ps. unitaria p t))"
  using assms by (rule recognize_un_token)

theorem single_token_witness:
  "elements (PStr (py ''a'')) = [py ''a''] \<and>
   recognize create_grammar_g2 (py ''S'') (PStr (py ''a'')) = Some False"
proof -
  have h: "elements (PStr (py ''a'')) = [py ''a'']" by (simp add: py_def)
  have e: "\<not> (\<exists>(nt, ps)\<in>set create_grammar_g2. nt = py ''S'' \<and>
              (\<exists>p\<in>set ps. unitaria p (py ''a'')))"
    by code_simp
  from single_token[OF h, of create_grammar_g2 "py ''S''"] e h show ?thesis
    by simp
qed

text \<open>
  C5. The pruning test changes nothing: the recogniser without it returns the same
  result on every grammar and every phrase (the non-empty ones in particular), since
  an empty side gives no pair.
\<close>

theorem pruning_noop: "recognize_sense_poda g arrel frase = recognize g arrel frase"
proof -
  have "omple_resta_sense_poda = omple_resta"
    by (intro ext)
      (simp add: omple_resta_sense_poda_def omple_resta_def divisio_sense_poda_eq[abs_def])
  then have "algoritme_cky_sense_poda = algoritme_cky"
    by (intro ext) (simp add: algoritme_cky_sense_poda_def algoritme_cky_def
        omple_taula_sense_poda_def omple_taula_def)
  then show ?thesis by (simp add: recognize_sense_poda_def recognize_def)
qed

theorem pruning_noop_witness:
  "recognize_sense_poda create_grammar_g1 (py ''S'') (PStr (py ''ab'')) = Some False"
proof -
  have "recognize create_grammar_g1 (py ''S'') (PStr (py ''ab'')) = Some False"
    by code_simp
  with pruning_noop[of create_grammar_g1 "py ''S''" "PStr (py ''ab'')"] show ?thesis
    by simp
qed

text \<open>
  C6. Adding a body of length three or more anywhere in the production list of a
  non-terminal changes neither the index built by \<open>_preprocessar_regles_binaries\<close> nor
  the result of the recogniser on any phrase, and raises nothing.
\<close>

theorem long_body_ignored:
  assumes "3 \<le> len p"
  shows "preprocessar_regles_binaries (g1 @ (A, ps1 @ p # ps2) # g2) =
           preprocessar_regles_binaries (g1 @ (A, ps1 @ ps2) # g2) \<and>
         recognize (g1 @ (A, ps1 @ p # ps2) # g2) arrel frase =
           recognize (g1 @ (A, ps1 @ ps2) # g2) arrel frase \<and>
         (\<exists>b. recognize (g1 @ (A, ps1 @ p # ps2) # g2) arrel frase = Some b)"
proof -
  let ?g' = "g1 @ (A, ps1 @ p # ps2) # g2" and ?g = "g1 @ (A, ps1 @ ps2) # g2"
  have r: "rules ?g' = insert (A, p) (rules ?g)"
    by (auto simp: rules_append rules_Cons)
  have d: "derivers (insert (A, p) (rules ?g)) = derivers (rules ?g)"
    using assms by (intro ext) (simp add: derivers_insert binaria_def)
  have i: "idx (rules ?g') = idx (rules ?g)"
    unfolding idx_def r d by (rule refl)
  have t: "\<And>a. terminals_de ?g' a = terminals_de ?g a"
    using assms by (auto simp: terminals_de_rules r unitaria_def)
  have b: "\<not> es_buida p" using assms by (simp add: es_buida_def)
  have q: "(\<exists>q\<in>set (ps1 @ p # ps2). es_buida q) = (\<exists>q\<in>set (ps1 @ ps2). es_buida q)"
    using b by auto
  have e: "len frase = 0 \<Longrightarrow> recognize ?g' arrel frase = recognize ?g arrel frase"
    unfolding recognize_buida map_of_mid q by (rule refl)
  have ne: "len frase \<noteq> 0 \<Longrightarrow> recognize ?g' arrel frase = recognize ?g arrel frase"
    using span_cong_terminals[OF t] by (simp add: recognize_span i)
  from e ne i recognize_defined[of ?g' arrel frase] show ?thesis
    by (cases "len frase = 0") (simp_all add: preprocessar_regles_binaries_eq)
qed

theorem long_body_ignored_witness:
  "3 \<le> len (PStr (py ''abc'')) \<and>
   preprocessar_regles_binaries [(py ''S'', [PStr (py ''a''), PStr (py ''abc'')])] =
     preprocessar_regles_binaries [(py ''S'', [PStr (py ''a'')])] \<and>
   recognize [(py ''S'', [PStr (py ''a''), PStr (py ''abc'')])] (py ''S'') (PStr (py ''a'')) =
     recognize [(py ''S'', [PStr (py ''a'')])] (py ''S'') (PStr (py ''a''))"
proof -
  have h: "3 \<le> len (PStr (py ''abc''))" by (simp add: py_def)
  from long_body_ignored[OF h, of "[]" "py ''S''" "[PStr (py ''a'')]" "[]" "[]" "py ''S''"
      "PStr (py ''a'')"] h
  show ?thesis by simp
qed

text \<open>
  C7. When the start symbol is not a key of the rule dictionary the answer is false for
  every phrase, empty or not, and nothing is raised: the cells only ever receive keys.
\<close>

theorem unknown_start:
  assumes "arrel \<notin> fst ` set g"
  shows "recognize g arrel frase = Some False"
proof (cases "len frase = 0")
  case True
  from assms have "map_of g arrel = None" by (simp add: map_of_eq_None_iff)
  with True show ?thesis by (simp add: recognize_buida)
next
  case False
  with assms span_keys[of g "elements frase" 0 "len frase - 1"] show ?thesis
    by (auto simp: recognize_span)
qed

theorem unknown_start_witness:
  "py ''Z'' \<notin> fst ` set create_grammar_g1 \<and>
   recognize create_grammar_g1 (py ''Z'') (PStr (py ''ab'')) = Some False"
proof -
  have h: "py ''Z'' \<notin> fst ` set create_grammar_g1" by code_simp
  from unknown_start[OF h] h show ?thesis by blast
qed

text \<open>
  C8. Two rule dictionaries with the same set of (non-terminal, body) pairs, whatever the
  order of their keys and of their bodies, give the same answer on every phrase.
\<close>

theorem order_independence:
  assumes "dict_ok g1" and "dict_ok g2" and "rules g1 = rules g2"
  shows "recognize g1 arrel frase = recognize g2 arrel frase"
proof (cases "len frase = 0")
  case True
  with buida_rules[OF assms(1), where s = arrel and P = es_buida]
    buida_rules[OF assms(2), where s = arrel and P = es_buida]
    assms(3) show ?thesis by (simp add: recognize_buida)
next
  case False
  with span_rules[OF assms(3)] show ?thesis by (simp add: recognize_span)
qed

theorem order_independence_witness:
  "dict_ok [(py ''S'', [PStr (py ''XS''), PStr (py ''b'')]), (py ''X'', [PStr (py ''a'')])] \<and>
   dict_ok [(py ''X'', [PStr (py ''a'')]), (py ''S'', [PStr (py ''b''), PStr (py ''XS'')])] \<and>
   rules [(py ''S'', [PStr (py ''XS''), PStr (py ''b'')]), (py ''X'', [PStr (py ''a'')])] =
   rules [(py ''X'', [PStr (py ''a'')]), (py ''S'', [PStr (py ''b''), PStr (py ''XS'')])] \<and>
   recognize [(py ''S'', [PStr (py ''XS''), PStr (py ''b'')]), (py ''X'', [PStr (py ''a'')])]
     (py ''S'') (PStr (py ''aab'')) = Some True \<and>
   recognize [(py ''X'', [PStr (py ''a'')]), (py ''S'', [PStr (py ''b''), PStr (py ''XS'')])]
     (py ''S'') (PStr (py ''aab'')) = Some True"
proof -
  let ?g1 = "[(py ''S'', [PStr (py ''XS''), PStr (py ''b'')]), (py ''X'', [PStr (py ''a'')])]"
  let ?g2 = "[(py ''X'', [PStr (py ''a'')]), (py ''S'', [PStr (py ''b''), PStr (py ''XS'')])]"
  have h1: "dict_ok ?g1" by code_simp
  have h2: "dict_ok ?g2" by code_simp
  have h3: "rules ?g1 = rules ?g2" by code_simp
  have r: "recognize ?g1 (py ''S'') (PStr (py ''aab'')) = Some True" by code_simp
  from order_independence[OF h1 h2 h3, of "py ''S''" "PStr (py ''aab'')"] r h1 h2 h3
  show ?thesis by simp
qed

text \<open>
  C9. With the grammar G1 of \<open>main.py\<close> and start symbol \<open>S\<close>, the phrase \<open>"ab"\<close> is
  rejected, by \<open>cky.py\<close> and by \<open>main.py\<close> alike: the cell of the whole phrase holds
  \<open>R\<close> only.
\<close>

theorem g1_ab_rejected:
  "recognize create_grammar_g1 (py ''S'') (PStr (py ''ab'')) = Some False \<and>
   main_recognize create_grammar_g1 (py ''S'') (PStr (py ''ab'')) = Some False"
  by code_simp

text \<open>
  C10. In \<open>cky.py\<close> the sentinel is also a terminal: when the start symbol has a body of
  length one whose item \<open>e\<close> is \<open>'\<epsilon>'\<close> or \<open>''\<close>, the empty phrase is accepted and so is
  the one-token phrase \<open>[e]\<close>.
\<close>

theorem sentinel_is_terminal:
  assumes "dict_ok g" and "(arrel, ps) \<in> set g" and "p \<in> set ps"
    and "len p = 1" and "getitem p 0 = Some e" and "e = epsilon \<or> e = []"
  shows "recognize g arrel (PList []) = Some True \<and>
         recognize g arrel (PList [e]) = Some True"
proof -
  have "es_buida p" using assms(4-6) by (auto simp: es_buida_def)
  then have "\<exists>(nt, ps)\<in>set g. nt = arrel \<and> (\<exists>p\<in>set ps. es_buida p)"
    using assms(2,3) by auto
  then have 1: "recognize g arrel (PList []) = Some True"
    using assms(1) by (simp add: recognize_buida_dict)
  have "unitaria p e" using assms(4,5) by (simp add: unitaria_def)
  then have "\<exists>(nt, ps)\<in>set g. nt = arrel \<and> (\<exists>p\<in>set ps. unitaria p e)"
    using assms(2,3) by auto
  then have 2: "recognize g arrel (PList [e]) = Some True"
    by (simp add: recognize_un_token)
  from 1 2 show ?thesis by simp
qed

theorem sentinel_is_terminal_witness:
  "recognize [(py ''S'', [PList [epsilon]])] (py ''S'') (PList []) = Some True \<and>
   recognize [(py ''S'', [PList [epsilon]])] (py ''S'') (PList [epsilon]) = Some True"
proof -
  let ?g = "[(py ''S'', [PList [epsilon]])]"
  have h1: "dict_ok ?g" by (simp add: dict_ok_def)
  have h2: "(py ''S'', [PList [epsilon]]) \<in> set ?g" by simp
  have h3: "PList [epsilon] \<in> set [PList [epsilon]]" by simp
  have h4: "len (PList [epsilon]) = 1" by simp
  have h5: "getitem (PList [epsilon]) 0 = Some epsilon" by simp
  have h6: "epsilon = epsilon \<or> epsilon = []" by simp
  from sentinel_is_terminal[OF h1 h2 h3 h4 h5 h6] show ?thesis .
qed

end
